theory Spec2Isabelle
  imports Main "HOL-Library.Word"
begin

section \<open>The Go library functions that \<open>watch\<close> calls\<close>

text \<open>
  \<open>main.go\<close> matches paths with \<open>filepath.Match\<close> and builds patterns with
  \<open>filepath.Join\<close>, both of Go's standard library (package \<open>path/filepath\<close>, the Unix
  build: the separator is \<open>/\<close>, the backslash escapes). They are embedded here function by
  function, as the library writes them (Go 1.16 and later, the first release with
  \<open>embed\<close>, which \<open>main.go\<close> imports). A Go string is a sequence of bytes, and so is an
  Isabelle \<open>string\<close>.
\<close>

subsection \<open>\<open>utf8.DecodeRuneInString\<close>\<close>

text \<open>A rune is a signed 32-bit integer; the decoder yields values from \<open>0\<close> to \<open>0x10FFFF\<close>.\<close>

type_synonym rune = int

definition RuneError :: rune where
  "RuneError = 0xFFFD"

definition byte :: "char \<Rightarrow> int" where
  "byte c = of_char c"

text \<open>
  The library reads the size of the encoding and the range accepted for the second
  byte from two tables indexed by the first byte; the tables are written out as
  comparisons here. The result is the rune and the number of bytes it takes;
  an invalid encoding is \<open>(RuneError, 1)\<close>, the empty string \<open>(RuneError, 0)\<close>.
\<close>

definition cont :: "int \<Rightarrow> bool" where
  "cont b = (0x80 \<le> b \<and> b \<le> 0xBF)"

fun DecodeRuneInString :: "string \<Rightarrow> rune \<times> nat" where
  "DecodeRuneInString [] = (RuneError, 0)"
| "DecodeRuneInString (c0 # t) =
     (let s0 = byte c0 in
      if s0 < 0x80 then (s0, 1)
      else if s0 < 0xC2 \<or> 0xF4 < s0 then (RuneError, 1)
      else
        let sz = (if s0 < 0xE0 then 2 else if s0 < 0xF0 then 3 else 4 :: nat);
            lo = (if s0 = 0xE0 then 0xA0 else if s0 = 0xF0 then 0x90 else 0x80);
            hi = (if s0 = 0xED then 0x9F else if s0 = 0xF4 then 0x8F else 0xBF)
        in
        if length (c0 # t) < sz then (RuneError, 1)
        else
          let s1 = byte (t ! 0) in
          if s1 < lo \<or> hi < s1 then (RuneError, 1)
          else if sz \<le> 2 then ((s0 mod 32) * 64 + s1 mod 64, 2)
          else
            let s2 = byte (t ! 1) in
            if \<not> cont s2 then (RuneError, 1)
            else if sz \<le> 3 then ((s0 mod 16) * 4096 + (s1 mod 64) * 64 + s2 mod 64, 3)
            else
              let s3 = byte (t ! 2) in
              if \<not> cont s3 then (RuneError, 1)
              else ((s0 mod 8) * 262144 + (s1 mod 64) * 4096 + (s2 mod 64) * 64
                      + s3 mod 64, 4))"

subsection \<open>\<open>filepath.Match\<close>\<close>

datatype match_error = ErrBadPattern

abbreviation Separator :: char where
  "Separator \<equiv> CHR ''/''"

abbreviation backslash :: char where
  "backslash \<equiv> CHR 0x5C"

text \<open>\<open>scanChunk\<close>: the leading stars, then the chunk up to the next star outside a class.\<close>

fun skip_stars :: "string \<Rightarrow> bool \<Rightarrow> bool \<times> string" where
  "skip_stars [] star = (star, [])"
| "skip_stars (c # cs) star =
     (if c = CHR ''*'' then skip_stars cs True else (star, c # cs))"

fun scan_len :: "string \<Rightarrow> bool \<Rightarrow> nat" where
  "scan_len [] inrange = 0"
| "scan_len (c # cs) inrange =
     (if c = backslash then
        (case cs of [] \<Rightarrow> 1 | _ # cs' \<Rightarrow> 2 + scan_len cs' inrange)
      else if c = CHR ''['' then 1 + scan_len cs True
      else if c = CHR '']'' then 1 + scan_len cs False
      else if c = CHR ''*'' then (if inrange then 1 + scan_len cs inrange else 0)
      else 1 + scan_len cs inrange)"

definition scanChunk :: "string \<Rightarrow> bool \<times> string \<times> string" where
  "scanChunk pattern =
     (let (star, p) = skip_stars pattern False;
          i = scan_len p False
      in (star, take i p, drop i p))"

text \<open>
  \<open>getEsc\<close>: one possibly escaped character of a character class. \<open>None\<close> is
  \<open>ErrBadPattern\<close>; on success the rune and the rest of the chunk, which is not empty.
\<close>

definition getEsc :: "string \<Rightarrow> (rune \<times> string) option" where
  "getEsc chunk =
     (case chunk of
        [] \<Rightarrow> None
      | c # cs \<Rightarrow>
          if c = CHR ''-'' \<or> c = CHR '']'' then None
          else
            let chunk1 = (if c = backslash then cs else chunk) in
            if chunk1 = [] then None
            else
              let (r, n) = DecodeRuneInString chunk1;
                  nchunk = drop n chunk1
              in if (r = RuneError \<and> n = 1) \<or> nchunk = [] then None
                 else Some (r, nchunk))"

lemma DecodeRuneInString_size: "s \<noteq> [] \<Longrightarrow> 0 < snd (DecodeRuneInString s)"
  by (cases s) (simp_all add: Let_def)

lemma getEsc_shorter: "getEsc chunk = Some (r, nchunk) \<Longrightarrow> length nchunk < length chunk"
proof (cases chunk)
  case Nil
  assume "getEsc chunk = Some (r, nchunk)"
  with Nil show ?thesis by (simp add: getEsc_def)
next
  case (Cons c cs)
  assume g: "getEsc chunk = Some (r, nchunk)"
  define chunk1 where "chunk1 = (if c = backslash then cs else chunk)"
  from g Cons have ne: "chunk1 \<noteq> []"
    by (auto simp: getEsc_def chunk1_def Let_def split: if_splits)
  from g Cons have "nchunk = drop (snd (DecodeRuneInString chunk1)) chunk1"
    by (auto simp: getEsc_def chunk1_def Let_def split: if_splits prod.splits)
  with DecodeRuneInString_size [OF ne] ne have "length nchunk < length chunk1"
    by simp
  moreover have "length chunk1 \<le> length chunk"
    by (simp add: chunk1_def Cons)
  ultimately show ?thesis by simp
qed

text \<open>
  The loop of \<open>matchChunk\<close> over the ranges of one character class: \<open>r\<close> is the rune of
  the name, \<open>match\<close> whether a range has held it, \<open>nrange\<close> the ranges read so far.
  \<open>None\<close> is \<open>ErrBadPattern\<close>; on success \<open>match\<close> and the chunk after the closing bracket.
\<close>

function parse_ranges :: "string \<Rightarrow> rune \<Rightarrow> bool \<Rightarrow> nat \<Rightarrow> (bool \<times> string) option" where
  "parse_ranges chunk r match nrange =
     (if chunk \<noteq> [] \<and> hd chunk = CHR '']'' \<and> 0 < nrange then Some (match, tl chunk)
      else
        case getEsc chunk of
          None \<Rightarrow> None
        | Some (lo, chunk1) \<Rightarrow>
            if hd chunk1 = CHR ''-'' then
              (case getEsc (tl chunk1) of
                 None \<Rightarrow> None
               | Some (hi, chunk2) \<Rightarrow>
                   parse_ranges chunk2 r (match \<or> (lo \<le> r \<and> r \<le> hi)) (nrange + 1))
            else parse_ranges chunk1 r (match \<or> (lo \<le> r \<and> r \<le> lo)) (nrange + 1))"
  by pat_completeness auto
termination
proof (relation "measure (\<lambda>(chunk, r, match, nrange). length chunk)", goal_cases)
  case 1
  show ?case by simp
next
  case (2 chunk r match nrange x2 lo chunk1 x2a hi chunk2)
  from 2 have "length chunk1 < length chunk" "length chunk2 < length (tl chunk1)"
    by (auto dest: getEsc_shorter)
  then show ?case by simp
next
  case (3 chunk r match nrange x2 lo chunk1)
  then show ?case by (auto dest: getEsc_shorter)
qed

declare parse_ranges.simps [simp del]

lemma parse_ranges_shorter:
  "parse_ranges chunk r match nrange = Some (m, chunk') \<Longrightarrow> length chunk' < length chunk"
proof (induction chunk r match nrange rule: parse_ranges.induct)
  case (1 chunk r match nrange)
  show ?case
  proof (cases "chunk \<noteq> [] \<and> hd chunk = CHR '']'' \<and> 0 < nrange")
    case True
    with "1.prems" have "chunk' = tl chunk"
      by (simp add: parse_ranges.simps [of chunk])
    with True show ?thesis by (cases chunk) auto
  next
    case False
    with "1.prems" obtain lo chunk1 where g: "getEsc chunk = Some (lo, chunk1)"
      by (auto simp: parse_ranges.simps [of chunk] split: option.splits)
    from g have l1: "length chunk1 < length chunk" by (rule getEsc_shorter)
    show ?thesis
    proof (cases "hd chunk1 = CHR ''-''")
      case True
      with "1.prems" False g obtain hi chunk2 where
        g2: "getEsc (tl chunk1) = Some (hi, chunk2)"
        by (auto simp: parse_ranges.simps [of chunk] split: option.splits)
      from g2 have "length chunk2 < length (tl chunk1)" by (rule getEsc_shorter)
      moreover from "1.IH"(1) [OF False g refl True g2 refl] "1.prems" False g True g2
      have "length chunk' < length chunk2"
        by (simp add: parse_ranges.simps [of chunk])
      ultimately show ?thesis using l1 by simp
    next
      case F2: False
      from "1.IH"(2) [OF False g refl F2] "1.prems" False g F2
      have "length chunk' < length chunk1"
        by (simp add: parse_ranges.simps [of chunk])
      with l1 show ?thesis by simp
    qed
  qed
qed

text \<open>
  \<open>matchChunk\<close>: does the chunk match the beginning of \<open>s\<close>? The result is Go's triple
  \<open>(rest, ok, err)\<close>. After the match has failed the loop goes on over the chunk, to
  check that it is well formed, and no longer reads \<open>s\<close>.
\<close>

function matchChunk_loop :: "string \<Rightarrow> string \<Rightarrow> bool \<Rightarrow> string \<times> bool \<times> match_error option" where
  "matchChunk_loop [] s failed = (if failed then ([], False, None) else (s, True, None))"
| "matchChunk_loop (c # chunk) s failed0 =
     (let failed = (failed0 \<or> s = []) in
      if c = CHR ''['' then
        (let (r, s1) = (if \<not> failed
                        then (fst (DecodeRuneInString s), drop (snd (DecodeRuneInString s)) s)
                        else (0, s));
             negated = (chunk \<noteq> [] \<and> hd chunk = CHR ''^'');
             chunk1 = (if negated then tl chunk else chunk)
         in case parse_ranges chunk1 r False 0 of
              None \<Rightarrow> ([], False, Some ErrBadPattern)
            | Some (match, chunk2) \<Rightarrow>
                matchChunk_loop chunk2 s1 (failed \<or> match = negated))
      else if c = CHR ''?'' then
        (if \<not> failed
         then matchChunk_loop chunk (drop (snd (DecodeRuneInString s)) s) (hd s = Separator)
         else matchChunk_loop chunk s failed)
      else
        (let chunk1 = (if c = backslash then chunk else c # chunk) in
         if chunk1 = [] then ([], False, Some ErrBadPattern)
         else if \<not> failed
         then matchChunk_loop (tl chunk1) (tl s) (hd chunk1 \<noteq> hd s)
         else matchChunk_loop (tl chunk1) s failed))"
  by pat_completeness auto
termination
  by (relation "measure (\<lambda>(chunk, s, failed). length chunk)")
     (auto dest!: parse_ranges_shorter split: if_splits)

definition matchChunk :: "string \<Rightarrow> string \<Rightarrow> string \<times> bool \<times> match_error option" where
  "matchChunk chunk s = matchChunk_loop chunk s False"

text \<open>
  The loop of \<open>Match\<close> that, after a star, looks for the chunk at each later position
  of the name; the star does not pass a separator. \<open>rest\<close> is the pattern that is left
  after the chunk: the last chunk has to use up the name.
\<close>

datatype skip_result = Found string | Failed match_error | NotFound

fun star_skip :: "string \<Rightarrow> string \<Rightarrow> string \<Rightarrow> skip_result" where
  "star_skip chunk rest [] = NotFound"
| "star_skip chunk rest (c # name) =
     (if c = Separator then NotFound
      else
        (case matchChunk chunk name of (t, ok, err) \<Rightarrow>
           if ok then (if rest = [] \<and> t \<noteq> [] then star_skip chunk rest name else Found t)
           else
             (case err of
                Some e \<Rightarrow> Failed e
              | None \<Rightarrow> star_skip chunk rest name)))"

lemma skip_stars_length: "length (snd (skip_stars p star)) \<le> length p"
  by (induction p star rule: skip_stars.induct) auto

lemma skip_stars_no_star: "snd (skip_stars p star) = c # cs \<Longrightarrow> c \<noteq> CHR ''*''"
  by (induction p star rule: skip_stars.induct) (auto split: if_splits)

lemma skip_stars_consumes:
  "p \<noteq> [] \<Longrightarrow> hd p = CHR ''*'' \<Longrightarrow> length (snd (skip_stars p star)) < length p"
  using skip_stars_length [of "tl p" True] by (cases p) auto

lemma scan_len_pos: "c \<noteq> CHR ''*'' \<Longrightarrow> 0 < scan_len (c # cs) inrange"
  by (auto split: list.splits)

lemma scanChunk_shorter:
  assumes "pattern \<noteq> []" and "scanChunk pattern = (star, chunk, rest)"
  shows "length rest < length pattern"
proof -
  obtain st p where sk: "skip_stars pattern False = (st, p)"
    by (cases "skip_stars pattern False")
  from assms(2) sk have rest: "rest = drop (scan_len p False) p"
    by (simp add: scanChunk_def Let_def)
  from sk skip_stars_length [of pattern False] have le: "length p \<le> length pattern"
    by simp
  show ?thesis
  proof (cases p)
    case Nil
    with rest assms(1) show ?thesis by simp
  next
    case (Cons c cs)
    with sk skip_stars_no_star [of pattern False c cs] have "c \<noteq> CHR ''*''"
      by simp
    then have "0 < scan_len (c # cs) False" by (rule scan_len_pos)
    with rest Cons have "length rest < length p" by simp
    with le show ?thesis by simp
  qed
qed

text \<open>
  \<open>Match\<close> returns Go's pair \<open>(matched, err)\<close>: whether the whole name matches the
  pattern, and \<open>ErrBadPattern\<close> when the pattern is found malformed on the way.
\<close>

function Match :: "string \<Rightarrow> string \<Rightarrow> bool \<times> match_error option" where
  "Match pattern name =
     (if pattern = [] then (name = [], None)
      else
        (case scanChunk pattern of (star, chunk, rest) \<Rightarrow>
           if star \<and> chunk = [] then (Separator \<notin> set name, None)
           else
             (case matchChunk chunk name of (t, ok, err) \<Rightarrow>
                if ok \<and> (t = [] \<or> rest \<noteq> []) then Match rest t
                else
                  (case err of
                     Some e \<Rightarrow> (False, Some e)
                   | None \<Rightarrow>
                       if star then
                         (case star_skip chunk rest name of
                            Found t' \<Rightarrow> Match rest t'
                          | Failed e \<Rightarrow> (False, Some e)
                          | NotFound \<Rightarrow> (False, None))
                       else (False, None)))))"
  by pat_completeness auto
termination
  by (relation "measure (\<lambda>(pattern, name). length pattern)")
     (auto dest: scanChunk_shorter [OF _ sym])

declare Match.simps [simp del]

text \<open>When \<open>Match\<close> reports an error it reports no match with it.\<close>

lemma Match_error_not_matched:
  "snd (Match pattern name) = Some e \<Longrightarrow> \<not> fst (Match pattern name)"
proof (induction pattern name rule: Match.induct)
  case (1 pattern name)
  note unfold = Match.simps [of pattern name]
  show ?case
  proof (cases "pattern = []")
    case True
    then have "Match pattern name = (name = [], None)"
      by (subst unfold) auto
    with "1.prems" show ?thesis by simp
  next
    case ne: False
    obtain star chunk rest where sc: "scanChunk pattern = (star, chunk, rest)"
      by (cases "scanChunk pattern")
    obtain t ok err where mc: "matchChunk chunk name = (t, ok, err)"
      by (cases "matchChunk chunk name")
    show ?thesis
    proof (cases "star \<and> chunk = []")
      case True
      with ne sc have "Match pattern name = (Separator \<notin> set name, None)"
        by (subst unfold) auto
      with "1.prems" show ?thesis by simp
    next
      case ns: False
      show ?thesis
      proof (cases "ok \<and> (t = [] \<or> rest \<noteq> [])")
        case True
        with ne sc mc ns have eq: "Match pattern name = Match rest t"
          by (subst unfold) auto
        from "1.IH"(1) [OF ne sc [symmetric] refl ns mc [symmetric] refl True] "1.prems" eq
        show ?thesis by simp
      next
        case nok: False
        show ?thesis
        proof (cases err)
          case (Some e')
          with ne sc mc ns nok have "Match pattern name = (False, Some e')"
            by (subst unfold) auto
          then show ?thesis by simp
        next
          case None
          show ?thesis
          proof (cases star)
            case False
            with ne sc mc ns nok None have "Match pattern name = (False, None)"
              by (subst unfold) auto
            with "1.prems" show ?thesis by simp
          next
            case True
            show ?thesis
            proof (cases "star_skip chunk rest name")
              case (Found t')
              with ne sc mc ns nok None True have eq: "Match pattern name = Match rest t'"
                by (subst unfold) auto
              from "1.IH"(2) [OF ne sc [symmetric] refl ns mc [symmetric] refl nok None True Found]
                "1.prems" eq
              show ?thesis by simp
            next
              case (Failed e')
              with ne sc mc ns nok None True have "Match pattern name = (False, Some e')"
                by (subst unfold) auto
              then show ?thesis by simp
            next
              case NotFound
              with ne sc mc ns nok None True have "Match pattern name = (False, None)"
                by (subst unfold) auto
              with "1.prems" show ?thesis by simp
            qed
          qed
        qed
      qed
    qed
  qed
qed

subsection \<open>\<open>filepath.Clean\<close> and \<open>filepath.Join\<close>\<close>

text \<open>
  \<open>Clean\<close> reads the path from index \<open>r\<close> and writes a buffer of \<open>w\<close> bytes; here the
  path still to read and the buffer written so far are lists, and \<open>w\<close> is the length of
  the buffer. \<open>dotdot\<close> is the index in the buffer where a \<open>..\<close> element has to stop.
  \<open>backtrack\<close> is the inner loop that takes the last element off the buffer.
\<close>

function backtrack :: "string \<Rightarrow> nat \<Rightarrow> nat \<Rightarrow> nat" where
  "backtrack out dotdot w =
     (if dotdot < w \<and> out ! w \<noteq> Separator then backtrack out dotdot (w - 1) else w)"
  by pat_completeness auto
termination
  by (relation "measure (\<lambda>(out, dotdot, w). w)") auto

declare backtrack.simps [simp del]

function clean_loop :: "bool \<Rightarrow> string \<Rightarrow> string \<Rightarrow> nat \<Rightarrow> string" where
  "clean_loop rooted [] out dotdot = out"
| "clean_loop rooted (c # cs) out dotdot =
     (if c = Separator then clean_loop rooted cs out dotdot
      else if c = CHR ''.'' \<and> (cs = [] \<or> hd cs = Separator) then
        clean_loop rooted cs out dotdot
      else if c = CHR ''.'' \<and> hd cs = CHR ''.'' \<and> (tl cs = [] \<or> hd (tl cs) = Separator) then
        (if dotdot < length out then
           clean_loop rooted (tl cs)
             (take (backtrack out dotdot (length out - 1)) out) dotdot
         else if \<not> rooted then
           (let out1 = (if 0 < length out then out @ [Separator] else out) @ ''..''
            in clean_loop rooted (tl cs) out1 (length out1))
         else clean_loop rooted (tl cs) out dotdot)
      else
        (let out1 = (if rooted \<and> length out \<noteq> 1 \<or> \<not> rooted \<and> length out \<noteq> 0
                     then out @ [Separator] else out)
         in clean_loop rooted (dropWhile (\<lambda>x. x \<noteq> Separator) (c # cs))
              (out1 @ takeWhile (\<lambda>x. x \<noteq> Separator) (c # cs)) dotdot))"
  by pat_completeness auto
termination
  by (relation "measure (\<lambda>(rooted, path, out, dotdot). length path)")
     (auto simp: less_Suc_eq_le length_dropWhile_le)

definition Clean :: "string \<Rightarrow> string" where
  "Clean path =
     (if path = [] then ''.''
      else
        let out = (if hd path = Separator then clean_loop True (tl path) [Separator] 1
                   else clean_loop False path [] 0)
        in if out = [] then ''.'' else out)"

fun strings_Join :: "string list \<Rightarrow> string \<Rightarrow> string" where
  "strings_Join [] sep = []"
| "strings_Join [e] sep = e"
| "strings_Join (e # es) sep = e @ sep @ strings_Join es sep"

text \<open>\<open>Join\<close> skips the leading empty elements and cleans the rest, joined by separators.\<close>

fun Join :: "string list \<Rightarrow> string" where
  "Join [] = []"
| "Join (e # es) = (if e \<noteq> [] then Clean (strings_Join (e # es) [Separator]) else Join es)"

declare Join.simps [simp del]

section \<open>The data of \<open>main.go\<close>\<close>

record Dir =
  Path :: string
  TemplateFilePattern :: string
  TestFilePattern :: string
  ScreenshotFilePattern :: string
  TestCommand :: "string list"

record Config =
  ListenAddr :: string
  Dirs :: "Dir list"

text \<open>
  An event of \<open>fsnotify\<close>: the path and the operation, an unsigned 32-bit set of flags
  (\<open>Create = 1 << iota\<close>, then \<open>Write\<close>, \<open>Remove\<close>, \<open>Rename\<close>, \<open>Chmod\<close>).
\<close>

type_synonym Op = "32 word"

definition Create :: Op where "Create = 1"
definition Write :: Op where "Write = 2"
definition Remove :: Op where "Remove = 4"
definition Rename :: Op where "Rename = 8"
definition Chmod :: Op where "Chmod = 16"

record Event =
  Name :: string
  Op :: Op

text \<open>
  What the operating system does with a command is not decided by the program: it is a
  parameter, a function from the program's name and its arguments to what became of the
  child process. \<open>cmd.Run\<close> returns an error unless the command started and exited with
  status 0.
\<close>

datatype run_result = NotStarted | Exited int

type_synonym os = "string \<Rightarrow> string list \<Rightarrow> run_result"

datatype go_error =
    StartError
  | ExitError int
  | Errorf string go_error
  | WatcherError string

definition cmd_Run :: "os \<Rightarrow> string \<Rightarrow> string list \<Rightarrow> go_error option" where
  "cmd_Run os name args =
     (case os name args of
        NotStarted \<Rightarrow> Some StartError
      | Exited code \<Rightarrow> if code = 0 then None else Some (ExitError code))"

text \<open>
  The program acts on the world by logging, by running a command, by asking the
  live-reload hub to refresh, and by starting goroutines. A run is the list of these
  effects in the order in which they happen. The closure that \<open>watch\<close> hands to \<open>do\<close>
  is the function it calls together with the directory it has captured.
\<close>

datatype level = Debug | Info | Error

datatype field = zap_String string string | zap_Error go_error | zap_Any string Event

datatype closure = call_retest Dir | call_reload Dir

datatype effect =
    Log level string "field list"
  | Exec string "string list"
  | ForceRefresh
  | Go_do string closure

text \<open>A call returns a value or panics (an index out of range).\<close>

datatype 'a outcome = Panic | Returns 'a

section \<open>\<open>retest\<close>, \<open>do\<close> and \<open>reload\<close>\<close>

definition retest :: "os \<Rightarrow> Dir \<Rightarrow> effect list \<times> go_error option outcome" where
  "retest os wdir =
     (let info = Log Info ''retesting directory'' [zap_String ''dir'' (Path wdir)] in
      case TestCommand wdir of
        [] \<Rightarrow> ([info], Panic)
      | name # args \<Rightarrow>
          (case cmd_Run os name args of
             Some err \<Rightarrow>
               ([info, Exec name args],
                Returns (Some (Errorf ''failed to run test command: '' err)))
           | None \<Rightarrow> ([info, Exec name args], Returns None)))"

definition reload :: "Dir \<Rightarrow> effect list \<times> go_error option outcome" where
  "reload wdir =
     ([Log Info ''reloading screenshots'' [zap_String ''dir'' (Path wdir)], ForceRefresh],
      Returns None)"

text \<open>
  \<open>do\<close> starts a goroutine and returns nothing. This is the run of that goroutine:
  it calls \<open>f\<close>, whose run and result are the argument, and logs the error if there is one.
\<close>

definition do :: "string \<Rightarrow> effect list \<times> go_error option outcome \<Rightarrow> effect list \<times> unit outcome" where
  "do m f =
     (case f of
        (tr, Panic) \<Rightarrow> (tr, Panic)
      | (tr, Returns None) \<Rightarrow> (tr, Returns ())
      | (tr, Returns (Some err)) \<Rightarrow> (tr @ [Log Error m [zap_Error err]], Returns ()))"

fun call :: "os \<Rightarrow> closure \<Rightarrow> effect list \<times> go_error option outcome" where
  "call os (call_retest wdir) = retest os wdir"
| "call os (call_reload wdir) = reload wdir"

section \<open>\<open>watch\<close>\<close>

text \<open>
  The body of the loop over \<open>cfg.Dirs\<close>, for one directory: the first pattern that
  matches decides, and the error of \<open>filepath.Match\<close> is dropped (\<open>m, _ :=\<close>).
  The closure is taken to hold the directory of its own iteration.
\<close>

definition range_body :: "Event \<Rightarrow> Dir \<Rightarrow> effect list" where
  "range_body ev wdir =
     (if fst (Match (Join [Path wdir, TestFilePattern wdir]) (Name ev)) then
        [Go_do ''failed to test'' (call_retest wdir)]
      else if fst (Match (Join [Path wdir, TemplateFilePattern wdir]) (Name ev)) then
        [Go_do ''failed to test'' (call_retest wdir)]
      else if fst (Match (Join [Path wdir, ScreenshotFilePattern wdir]) (Name ev)) then
        [Go_do ''failed to reload'' (call_reload wdir)]
      else [])"

fun range_Dirs :: "Event \<Rightarrow> Dir list \<Rightarrow> effect list" where
  "range_Dirs ev [] = []"
| "range_Dirs ev (wdir # dirs) = range_body ev wdir @ range_Dirs ev dirs"

text \<open>
  What one \<open>select\<close> of the loop receives: a value from one of the two channels of the
  watcher, or the news that the channel is closed (\<open>ok\<close> is false).
\<close>

datatype recv = Events_recv Event | Events_closed | Errors_recv go_error | Errors_closed

datatype status = Listening | Returned

text \<open>
  \<open>watch\<close> on the list of what its \<open>select\<close> statements receive, in order: the effects
  of the loop, and whether it has returned or is waiting in \<open>select\<close> for more.
\<close>

fun watch :: "Config \<Rightarrow> recv list \<Rightarrow> effect list \<times> status" where
  "watch cfg [] = ([], Listening)"
| "watch cfg (Events_closed # rs) =
     ([Log Error ''failed to read next event, stopping'' []], Returned)"
| "watch cfg (Events_recv ev # rs) =
     (if Op ev = Chmod then watch cfg rs
      else
        let (tr, st) = watch cfg rs
        in (range_Dirs ev (Dirs cfg) @ [Log Debug ''fsnotify event'' [zap_Any ''ev'' ev]] @ tr,
            st))"
| "watch cfg (Errors_closed # rs) = ([Log Error ''watcher error, stopping'' []], Returned)"
| "watch cfg (Errors_recv err # rs) =
     (let (tr, st) = watch cfg rs
      in (Log Error ''fsnotify error'' [zap_Error err] # tr, st))"

section \<open>Example directories\<close>

text \<open>
  The directory of the specification's example, a directory whose test pattern also
  matches its screenshots, and a directory whose three patterns are malformed.
\<close>

definition proj :: Dir where
  "proj = \<lparr>Path = ''/proj'', TemplateFilePattern = ''*.gotmpl'',
            TestFilePattern = ''*_test.go'', ScreenshotFilePattern = ''*.screenshot.jpeg'',
            TestCommand = [''go'', ''test'', ''./...'']\<rparr>"

definition overlap :: Dir where
  "overlap = \<lparr>Path = ''/proj'', TemplateFilePattern = ''*.gotmpl'',
               TestFilePattern = ''*.jpeg'', ScreenshotFilePattern = ''*.screenshot.jpeg'',
               TestCommand = [''go'', ''test'', ''./...'']\<rparr>"

definition broken :: Dir where
  "broken = \<lparr>Path = ''/proj'', TemplateFilePattern = ''[a-'',
              TestFilePattern = ''['', ScreenshotFilePattern = ''*.[jpeg'',
              TestCommand = [''go'', ''test'', ''./...'']\<rparr>"

section \<open>Reading a run\<close>

text \<open>
  The specification speaks of the actions that an event produces for a directory: they
  are the goroutines that the loop starts, a retest or a reload each, in the order of
  their start.
\<close>

datatype action = Retest | Reload

fun action_of :: "closure \<Rightarrow> action" where
  "action_of (call_retest wdir) = Retest"
| "action_of (call_reload wdir) = Reload"

fun produced :: "effect list \<Rightarrow> action list" where
  "produced [] = []"
| "produced (Go_do m f # tr) = action_of f # produced tr"
| "produced (e # tr) = produced tr"

text \<open>A path matches a pattern of a directory when \<open>Match\<close> says so of the joined pattern.\<close>

definition matches :: "Dir \<Rightarrow> string \<Rightarrow> string \<Rightarrow> bool" where
  "matches wdir pattern name = fst (Match (Join [Path wdir, pattern]) name)"

text \<open>The error that \<open>Match\<close> reports of the joined pattern, which \<open>watch\<close> drops.\<close>

definition pattern_error :: "Dir \<Rightarrow> string \<Rightarrow> string \<Rightarrow> match_error option" where
  "pattern_error wdir pattern name = snd (Match (Join [Path wdir, pattern]) name)"

text \<open>The effects that are lines logged at level \<open>Error\<close>, and those that start a goroutine.\<close>

fun is_error_log :: "effect \<Rightarrow> bool" where
  "is_error_log (Log Error m fs) = True"
| "is_error_log e = False"

fun is_Go_do :: "effect \<Rightarrow> bool" where
  "is_Go_do (Go_do m f) = True"
| "is_Go_do e = False"

section \<open>The process\<close>

text \<open>
  A goroutine shares nothing with the loop that started it, and \<open>do\<close> hands nothing
  back: the loop does not wait for it. What can reach the loop from a goroutine is a
  panic, which ends the whole process. \<open>run_goroutines\<close> goes through the effects of
  the loop and runs every goroutine to its end at the point where it is started (one of
  the schedules of the program), against the operating system \<open>os\<close>; the result is the
  effects of loop and goroutines together, and \<open>Panic\<close> if a goroutine has panicked, in
  which case nothing after it happens.
\<close>

fun run_goroutines :: "os \<Rightarrow> effect list \<Rightarrow> effect list \<times> unit outcome" where
  "run_goroutines os [] = ([], Returns ())"
| "run_goroutines os (Go_do m f # tr) =
     (case do m (call os f) of
        (g, Panic) \<Rightarrow> (Go_do m f # g, Panic)
      | (g, Returns u) \<Rightarrow>
          (case run_goroutines os tr of (tr', out) \<Rightarrow> (Go_do m f # g @ tr', out)))"
| "run_goroutines os (e # tr) =
     (case run_goroutines os tr of (tr', out) \<Rightarrow> (e # tr', out))"

definition process :: "os \<Rightarrow> Config \<Rightarrow> recv list \<Rightarrow> effect list \<times> status outcome" where
  "process os cfg rs =
     (case watch cfg rs of (tr, st) \<Rightarrow>
        (case run_goroutines os tr of
           (tr', Panic) \<Rightarrow> (tr', Panic)
         | (tr', Returns u) \<Rightarrow> (tr', Returns st)))"

text \<open>A goroutine that calls \<open>retest\<close> for a directory with a command to run.\<close>

fun has_command :: "effect \<Rightarrow> bool" where
  "has_command (Go_do m (call_retest wdir)) = (TestCommand wdir \<noteq> [])"
| "has_command e = True"

section \<open>Patterns with one star\<close>

text \<open>
  The characters that \<open>Match\<close> reads as operators, and the strings without any: they
  stand for themselves in a pattern.
\<close>

definition meta :: "char \<Rightarrow> bool" where
  "meta c = (c = CHR ''*'' \<or> c = CHR ''?'' \<or> c = CHR ''['' \<or> c = backslash)"

definition literal :: "string \<Rightarrow> bool" where
  "literal s = list_all (\<lambda>c. \<not> meta c) s"

text \<open>The name ends with \<open>suf\<close>, after a run of characters that are not separators.\<close>

definition star_tail :: "string \<Rightarrow> string \<Rightarrow> bool" where
  "star_tail suf name = (\<exists>mid. name = mid @ suf \<and> Separator \<notin> set mid)"

text \<open>
  A path element that \<open>Clean\<close> keeps as it is, and the absolute path of a list of
  elements: \<open>abs_path [''a'', ''b''] = ''/a/b''\<close>.
\<close>

definition segment :: "string \<Rightarrow> bool" where
  "segment s = (s \<noteq> [] \<and> Separator \<notin> set s \<and> s \<noteq> ''.'' \<and> s \<noteq> ''..'')"

definition abs_path :: "string list \<Rightarrow> string" where
  "abs_path segs = concat (map (\<lambda>s. Separator # s) segs)"

section \<open>Properties of \<open>watch\<close>\<close>

lemma watch_status:
  "snd (watch cfg rs) = Returned \<longleftrightarrow> Events_closed \<in> set rs \<or> Errors_closed \<in> set rs"
  by (induction cfg rs rule: watch.induct) (auto split: prod.splits)

text \<open>
  C2. An event whose operation is \<open>Chmod\<close> leaves no trace: the loop goes on to its next
  \<open>select\<close> as if the event had not been received, whatever the configured directories
  and their patterns are, so no goroutine is started and nothing is logged for it.
\<close>

theorem chmod_event_discarded:
  "Op ev = Chmod \<Longrightarrow>
     watch cfg (Events_recv ev # rs) = watch cfg rs \<and> fst (watch cfg [Events_recv ev]) = []"
  by simp

theorem chmod_event_discarded_witness:
  "Op \<lparr>Name = ''/proj/foo_test.go'', Op = Chmod\<rparr> = Chmod \<and>
   fst (watch \<lparr>ListenAddr = '':8080'', Dirs = [proj]\<rparr>
          [Events_recv \<lparr>Name = ''/proj/foo_test.go'', Op = Chmod\<rparr>]) = []"
  using chmod_event_discarded
    [of "\<lparr>Name = ''/proj/foo_test.go'', Op = Chmod\<rparr>"
        "\<lparr>ListenAddr = '':8080'', Dirs = [proj]\<rparr>" "[]"]
  by simp

text \<open>
  C3, as the specification states it: the loop returns only when the event stream is
  closed, and the closing of the error stream alone does not end it. In the code the
  closed error stream ends the loop as well: here the event stream is never closed and
  the loop has returned.
\<close>

theorem errors_closed_counterexample:
  "Events_closed \<notin> set [Errors_closed] \<and>
   watch \<lparr>ListenAddr = '':8080'', Dirs = [proj]\<rparr> [Errors_closed]
     = ([Log Error ''watcher error, stopping'' []], Returned)"
  by simp

text \<open>
  C3, amended: the loop returns exactly when one of its two streams is found closed,
  and nothing that is received after that is handled; an error value received on the
  error stream is logged and the loop goes on with what it receives next.
\<close>

theorem watch_returns_when_a_stream_closes:
  "(snd (watch cfg rs) = Returned) = (Events_closed \<in> set rs \<or> Errors_closed \<in> set rs) \<and>
   watch cfg (Events_closed # rs) = watch cfg [Events_closed] \<and>
   watch cfg (Errors_closed # rs) = watch cfg [Errors_closed] \<and>
   watch cfg (Errors_recv err # rs)
     = (Log Error ''fsnotify error'' [zap_Error err] # fst (watch cfg rs), snd (watch cfg rs))"
  by (simp add: watch_status split: prod.splits)

section \<open>Properties of \<open>retest\<close>, \<open>do\<close> and \<open>reload\<close>\<close>

text \<open>
  C7. \<open>reload\<close> returns nil for every directory: it logs, asks the hub to refresh, and
  has no other way out.
\<close>

theorem reload_returns_nil:
  "snd (reload wdir) = Returns None"
  by (simp add: reload_def)

text \<open>
  C10. \<open>retest\<close> panics exactly when the directory's \<open>TestCommand\<close> is empty: the index
  expression \<open>wdir.TestCommand[0]\<close> is out of range, after the line has been logged and
  before any command is run. A panic is not a returned error.
\<close>

theorem retest_panics_on_empty_command:
  "(snd (retest os wdir) = Panic) = (TestCommand wdir = []) \<and>
   (retest os wdir
      = ([Log Info ''retesting directory'' [zap_String ''dir'' (Path wdir)]], Panic))
     = (TestCommand wdir = [])"
  by (auto simp: retest_def Let_def split: list.splits option.splits)

section \<open>Which action an event produces for a directory\<close>

lemma range_body_matches:
  "range_body ev wdir =
     (if matches wdir (TestFilePattern wdir) (Name ev)
         \<or> matches wdir (TemplateFilePattern wdir) (Name ev)
      then [Go_do ''failed to test'' (call_retest wdir)]
      else if matches wdir (ScreenshotFilePattern wdir) (Name ev)
      then [Go_do ''failed to reload'' (call_reload wdir)]
      else [])"
  by (simp add: range_body_def matches_def)

lemma overlap_test:
  "matches overlap (TestFilePattern overlap) ''/proj/profile.screenshot.jpeg''"
  unfolding matches_def overlap_def by code_simp

lemma overlap_screenshot:
  "matches overlap (ScreenshotFilePattern overlap) ''/proj/profile.screenshot.jpeg''"
  unfolding matches_def overlap_def by code_simp

text \<open>
  C1, as the specification states it: a path that matches a code pattern and the
  screenshot pattern produces both actions, \<open>{Retest, Reload}\<close>. The three patterns are
  the branches of one \<open>if\<close> \<open>else if\<close> chain, so the first that matches is the only one
  that acts: with the test pattern \<open>*.jpeg\<close> a screenshot matches both, and only the
  retest is started.
\<close>

theorem both_match_counterexample:
  "matches overlap (TestFilePattern overlap) ''/proj/profile.screenshot.jpeg'' \<and>
   matches overlap (ScreenshotFilePattern overlap) ''/proj/profile.screenshot.jpeg'' \<and>
   produced (range_body \<lparr>Name = ''/proj/profile.screenshot.jpeg'', Op = Write\<rparr> overlap)
     = [Retest] \<and>
   set (produced (range_body \<lparr>Name = ''/proj/profile.screenshot.jpeg'', Op = Write\<rparr> overlap))
     \<noteq> {Retest, Reload}"
  using overlap_test overlap_screenshot by (simp add: range_body_matches)

text \<open>
  C1, amended: for every directory and every event at most one action is produced, and
  the first pattern that matches decides which. A path that matches the test pattern or
  the template pattern produces one retest, whether it matches the screenshot pattern
  or not; a path that matches the screenshot pattern only produces one reload; a path
  that matches none produces nothing.
\<close>

theorem first_match_decides:
  "produced (range_body ev wdir) =
     (if matches wdir (TestFilePattern wdir) (Name ev)
         \<or> matches wdir (TemplateFilePattern wdir) (Name ev)
      then [Retest]
      else if matches wdir (ScreenshotFilePattern wdir) (Name ev) then [Reload]
      else [])"
  by (simp add: range_body_matches)

lemma proj_patterns:
  "Join [Path proj, TestFilePattern proj] = ''/proj/*_test.go''"
  "Join [Path proj, TemplateFilePattern proj] = ''/proj/*.gotmpl''"
  "Join [Path proj, ScreenshotFilePattern proj] = ''/proj/*.screenshot.jpeg''"
  unfolding proj_def by code_simp+

lemma proj_foo_test:
  "Match ''/proj/*_test.go'' ''/proj/foo_test.go'' = (True, None)"
  by code_simp

lemma proj_screenshot:
  "Match ''/proj/*_test.go'' ''/proj/profile.screenshot.jpeg'' = (False, None)"
  "Match ''/proj/*.gotmpl'' ''/proj/profile.screenshot.jpeg'' = (False, None)"
  "Match ''/proj/*.screenshot.jpeg'' ''/proj/profile.screenshot.jpeg'' = (True, None)"
  by code_simp+

lemma proj_readme:
  "Match ''/proj/*_test.go'' ''/proj/README.md'' = (False, None)"
  "Match ''/proj/*.gotmpl'' ''/proj/README.md'' = (False, None)"
  "Match ''/proj/*.screenshot.jpeg'' ''/proj/README.md'' = (False, None)"
  by code_simp+



text \<open>
  C5. For the directory of the specification's example, the loop over the directories
  starts exactly one retest of it for the path \<open>/proj/foo_test.go\<close>, exactly one reload
  of it for \<open>/proj/profile.screenshot.jpeg\<close> and nothing for \<open>/proj/README.md\<close>, whatever
  the operation of the event is; \<open>watch\<close> reaches that loop for every event whose
  operation is not \<open>Chmod\<close>.
\<close>

theorem example_directory:
  "range_body \<lparr>Name = ''/proj/foo_test.go'', Op = op\<rparr> proj
     = [Go_do ''failed to test'' (call_retest proj)] \<and>
   range_body \<lparr>Name = ''/proj/profile.screenshot.jpeg'', Op = op\<rparr> proj
     = [Go_do ''failed to reload'' (call_reload proj)] \<and>
   range_body \<lparr>Name = ''/proj/README.md'', Op = op\<rparr> proj = [] \<and>
   (op \<noteq> Chmod \<longrightarrow>
      produced (fst (watch \<lparr>ListenAddr = addr, Dirs = [proj]\<rparr>
                       [Events_recv \<lparr>Name = ''/proj/foo_test.go'', Op = op\<rparr>]))
        = [Retest] \<and>
      produced (fst (watch \<lparr>ListenAddr = addr, Dirs = [proj]\<rparr>
                       [Events_recv \<lparr>Name = ''/proj/profile.screenshot.jpeg'', Op = op\<rparr>]))
        = [Reload] \<and>
      produced (fst (watch \<lparr>ListenAddr = addr, Dirs = [proj]\<rparr>
                       [Events_recv \<lparr>Name = ''/proj/README.md'', Op = op\<rparr>]))
        = [])"
  by (simp add: range_body_def proj_patterns proj_foo_test proj_screenshot proj_readme)

theorem example_directory_witness:
  "Write \<noteq> Chmod \<and>
   produced (fst (watch \<lparr>ListenAddr = '':8080'', Dirs = [proj]\<rparr>
                    [Events_recv \<lparr>Name = ''/proj/foo_test.go'', Op = Write\<rparr>]))
     = [Retest]"
  using example_directory [of Write "'':8080''"] by (simp add: Write_def Chmod_def)

lemma range_Dirs_append:
  "range_Dirs ev (ds @ ds') = range_Dirs ev ds @ range_Dirs ev ds'"
  by (induction ds) simp_all

lemma watch_append:
  "Events_closed \<notin> set pre \<Longrightarrow> Errors_closed \<notin> set pre \<Longrightarrow>
     watch cfg (pre @ rs) = (fst (watch cfg pre) @ fst (watch cfg rs), snd (watch cfg rs))"
  by (induction cfg pre rule: watch.induct) (auto split: prod.splits)

text \<open>
  C8. What is started for a directory and a path is a function of the directory record
  and of the path alone: two events with the same path get the same for it, the other
  directories of the configuration add theirs before and after without changing it, and
  so does everything the loop has received before the event and receives after it.
\<close>

theorem classification_depends_on_directory_and_path_only:
  "(Name ev = Name ev' \<longrightarrow> range_body ev wdir = range_body ev' wdir) \<and>
   range_Dirs ev (ds @ wdir # ds')
     = range_Dirs ev ds @ range_body ev wdir @ range_Dirs ev ds' \<and>
   (Events_closed \<notin> set pre \<and> Errors_closed \<notin> set pre \<and> Op ev \<noteq> Chmod \<longrightarrow>
      fst (watch cfg (pre @ Events_recv ev # rs))
        = fst (watch cfg pre) @ range_Dirs ev (Dirs cfg)
            @ [Log Debug ''fsnotify event'' [zap_Any ''ev'' ev]] @ fst (watch cfg rs))"
  by (simp add: range_body_def range_Dirs_append watch_append split: prod.splits)

theorem classification_depends_on_directory_and_path_only_witness:
  "Name \<lparr>Name = ''/proj/foo_test.go'', Op = Write\<rparr>
     = Name \<lparr>Name = ''/proj/foo_test.go'', Op = Create\<rparr> \<and>
   range_body \<lparr>Name = ''/proj/foo_test.go'', Op = Write\<rparr> proj
     = range_body \<lparr>Name = ''/proj/foo_test.go'', Op = Create\<rparr> proj \<and>
   Events_closed \<notin> set [Errors_recv (WatcherError ''overflow'')] \<and>
   Errors_closed \<notin> set [Errors_recv (WatcherError ''overflow'')] \<and>
   Op \<lparr>Name = ''/proj/foo_test.go'', Op = Write\<rparr> \<noteq> Chmod \<and>
   fst (watch \<lparr>ListenAddr = '':8080'', Dirs = [proj]\<rparr>
          ([Errors_recv (WatcherError ''overflow'')]
             @ Events_recv \<lparr>Name = ''/proj/foo_test.go'', Op = Write\<rparr> # []))
     = fst (watch \<lparr>ListenAddr = '':8080'', Dirs = [proj]\<rparr>
              [Errors_recv (WatcherError ''overflow'')])
         @ range_Dirs \<lparr>Name = ''/proj/foo_test.go'', Op = Write\<rparr>
             (Dirs \<lparr>ListenAddr = '':8080'', Dirs = [proj]\<rparr>)
         @ [Log Debug ''fsnotify event''
              [zap_Any ''ev'' \<lparr>Name = ''/proj/foo_test.go'', Op = Write\<rparr>]]
         @ fst (watch \<lparr>ListenAddr = '':8080'', Dirs = [proj]\<rparr> [])"
proof -
  let ?e1 = "\<lparr>Name = ''/proj/foo_test.go'', Op = Write\<rparr>"
  let ?e2 = "\<lparr>Name = ''/proj/foo_test.go'', Op = Create\<rparr>"
  let ?cfg = "\<lparr>ListenAddr = '':8080'', Dirs = [proj]\<rparr>"
  let ?pre = "[Errors_recv (WatcherError ''overflow'')]"
  note t = classification_depends_on_directory_and_path_only
      [of ?e1 ?e2 proj "[]" "[]" ?pre ?cfg "[]"]
  have h1: "Name ?e1 = Name ?e2" by simp
  have h2: "Events_closed \<notin> set ?pre \<and> Errors_closed \<notin> set ?pre \<and> Op ?e1 \<noteq> Chmod"
    by (simp add: Write_def Chmod_def)
  from t h1 have c1: "range_body ?e1 proj = range_body ?e2 proj" by blast
  from t h2 have c2: "fst (watch ?cfg (?pre @ Events_recv ?e1 # []))
        = fst (watch ?cfg ?pre) @ range_Dirs ?e1 (Dirs ?cfg)
            @ [Log Debug ''fsnotify event'' [zap_Any ''ev'' ?e1]] @ fst (watch ?cfg [])"
    by blast
  from h1 h2 c1 c2 show ?thesis by blast
qed

section \<open>Malformed patterns\<close>

lemma error_is_no_match: "pattern_error wdir pattern name \<noteq> None \<Longrightarrow> \<not> matches wdir pattern name"
  unfolding pattern_error_def matches_def by (auto dest: Match_error_not_matched)

lemma range_body_Go_do: "list_all is_Go_do (range_body ev wdir)"
  by (simp add: range_body_def)

lemma range_Dirs_Go_do: "list_all is_Go_do (range_Dirs ev dirs)"
  by (induction dirs) (simp_all add: range_body_Go_do)

lemma broken_errors:
  "pattern_error broken (TestFilePattern broken) ''/proj/x.jpeg'' = Some ErrBadPattern"
  "pattern_error broken (TemplateFilePattern broken) ''/proj/x.jpeg'' = Some ErrBadPattern"
  "pattern_error broken (ScreenshotFilePattern broken) ''/proj/x.jpeg'' = Some ErrBadPattern"
  unfolding pattern_error_def broken_def by code_simp+

text \<open>
  C9. When \<open>Match\<close> reports an error of a joined pattern, that pattern counts as not
  matching: the branch of its action is not taken and the other two patterns decide as
  they would without it. The error goes nowhere: the loop over the directories only
  starts goroutines, it logs nothing, and the one line that \<open>watch\<close> logs for the event is
  the debug line of every event.
\<close>

theorem malformed_pattern_does_not_match:
  "(pattern_error wdir (TestFilePattern wdir) (Name ev) \<noteq> None \<longrightarrow>
      range_body ev wdir =
        (if matches wdir (TemplateFilePattern wdir) (Name ev)
         then [Go_do ''failed to test'' (call_retest wdir)]
         else if matches wdir (ScreenshotFilePattern wdir) (Name ev)
         then [Go_do ''failed to reload'' (call_reload wdir)]
         else [])) \<and>
   (pattern_error wdir (TemplateFilePattern wdir) (Name ev) \<noteq> None \<longrightarrow>
      range_body ev wdir =
        (if matches wdir (TestFilePattern wdir) (Name ev)
         then [Go_do ''failed to test'' (call_retest wdir)]
         else if matches wdir (ScreenshotFilePattern wdir) (Name ev)
         then [Go_do ''failed to reload'' (call_reload wdir)]
         else [])) \<and>
   (pattern_error wdir (ScreenshotFilePattern wdir) (Name ev) \<noteq> None \<longrightarrow>
      range_body ev wdir =
        (if matches wdir (TestFilePattern wdir) (Name ev)
            \<or> matches wdir (TemplateFilePattern wdir) (Name ev)
         then [Go_do ''failed to test'' (call_retest wdir)]
         else [])) \<and>
   list_all is_Go_do (range_Dirs ev dirs) \<and>
   (Op ev \<noteq> Chmod \<longrightarrow>
      watch cfg [Events_recv ev]
        = (range_Dirs ev (Dirs cfg) @ [Log Debug ''fsnotify event'' [zap_Any ''ev'' ev]],
           Listening))"
proof (intro conjI impI)
  assume "pattern_error wdir (TestFilePattern wdir) (Name ev) \<noteq> None"
  then have "\<not> matches wdir (TestFilePattern wdir) (Name ev)"
    by (rule error_is_no_match)
  then show "range_body ev wdir =
        (if matches wdir (TemplateFilePattern wdir) (Name ev)
         then [Go_do ''failed to test'' (call_retest wdir)]
         else if matches wdir (ScreenshotFilePattern wdir) (Name ev)
         then [Go_do ''failed to reload'' (call_reload wdir)]
         else [])"
    by (simp add: range_body_matches)
next
  assume "pattern_error wdir (TemplateFilePattern wdir) (Name ev) \<noteq> None"
  then have "\<not> matches wdir (TemplateFilePattern wdir) (Name ev)"
    by (rule error_is_no_match)
  then show "range_body ev wdir =
        (if matches wdir (TestFilePattern wdir) (Name ev)
         then [Go_do ''failed to test'' (call_retest wdir)]
         else if matches wdir (ScreenshotFilePattern wdir) (Name ev)
         then [Go_do ''failed to reload'' (call_reload wdir)]
         else [])"
    by (simp add: range_body_matches)
next
  assume "pattern_error wdir (ScreenshotFilePattern wdir) (Name ev) \<noteq> None"
  then have "\<not> matches wdir (ScreenshotFilePattern wdir) (Name ev)"
    by (rule error_is_no_match)
  then show "range_body ev wdir =
        (if matches wdir (TestFilePattern wdir) (Name ev)
            \<or> matches wdir (TemplateFilePattern wdir) (Name ev)
         then [Go_do ''failed to test'' (call_retest wdir)]
         else [])"
    by (simp add: range_body_matches)
next
  show "list_all is_Go_do (range_Dirs ev dirs)"
    by (rule range_Dirs_Go_do)
next
  assume "Op ev \<noteq> Chmod"
  then show "watch cfg [Events_recv ev]
        = (range_Dirs ev (Dirs cfg) @ [Log Debug ''fsnotify event'' [zap_Any ''ev'' ev]],
           Listening)"
    by simp
qed

theorem malformed_pattern_does_not_match_witness:
  "pattern_error broken (TestFilePattern broken) ''/proj/x.jpeg'' \<noteq> None \<and>
   pattern_error broken (TemplateFilePattern broken) ''/proj/x.jpeg'' \<noteq> None \<and>
   pattern_error broken (ScreenshotFilePattern broken) ''/proj/x.jpeg'' \<noteq> None \<and>
   Write \<noteq> Chmod \<and>
   range_body \<lparr>Name = ''/proj/x.jpeg'', Op = Write\<rparr> broken = []"
proof -
  let ?ev = "\<lparr>Name = ''/proj/x.jpeg'', Op = Write\<rparr>"
  have e: "pattern_error broken (TestFilePattern broken) (Name ?ev) \<noteq> None"
    "pattern_error broken (TemplateFilePattern broken) (Name ?ev) \<noteq> None"
    "pattern_error broken (ScreenshotFilePattern broken) (Name ?ev) \<noteq> None"
    by (simp_all add: broken_errors)
  have n: "\<not> matches broken (TestFilePattern broken) (Name ?ev)"
    "\<not> matches broken (TemplateFilePattern broken) (Name ?ev)"
    by (rule error_is_no_match [OF e(1)], rule error_is_no_match [OF e(2)])
  have w: "Write \<noteq> Chmod" by (simp add: Write_def Chmod_def)
  from malformed_pattern_does_not_match [of broken ?ev "[broken]"
        "\<lparr>ListenAddr = '':8080'', Dirs = [broken]\<rparr>"] e(3) n
  have "range_body ?ev broken = []" by simp
  with e w show ?thesis by simp
qed

section \<open>Failing test commands\<close>

lemma retest_error_iff:
  "(\<exists>err. snd (retest os wdir) = Returns (Some err))
     = (\<exists>name args. TestCommand wdir = name # args \<and> os name args \<noteq> Exited 0)"
  by (auto simp: retest_def cmd_Run_def Let_def
      split: list.splits option.splits run_result.splits if_splits)

lemma do_logs_error:
  "snd f = Returns (Some err) \<Longrightarrow> do m f = (fst f @ [Log Error m [zap_Error err]], Returns ())"
  by (cases f) (simp add: do_def)

lemma retest_no_error_log: "filter is_error_log (fst (retest os wdir)) = []"
  by (simp add: retest_def Let_def split: list.splits option.splits)

lemma produced_append: "produced (tr @ tr') = produced tr @ produced tr'"
  by (induction tr rule: produced.induct) simp_all

lemma produced_call: "produced (fst (call os f)) = []"
  by (cases f) (simp_all add: retest_def reload_def Let_def split: list.splits option.splits)

lemma produced_do: "produced (fst (do m (call os f))) = []"
proof (cases "call os f")
  case (Pair tr out)
  with produced_call [of os f] show ?thesis
    by (cases out) (auto simp: do_def produced_append split: option.splits)
qed

lemma do_panics: "has_command (Go_do m f) \<Longrightarrow> snd (do m (call os f)) = Returns ()"
  by (cases f)
     (auto simp: do_def retest_def reload_def Let_def split: list.splits option.splits)

lemma run_goroutines_safe:
  "list_all has_command tr \<Longrightarrow>
     snd (run_goroutines os tr) = Returns ()
     \<and> produced (fst (run_goroutines os tr)) = produced tr"
proof (induction os tr rule: run_goroutines.induct)
  case (1 os)
  show ?case by simp
next
  case (2 os m f tr)
  from "2.prems" have hc: "has_command (Go_do m f)" and rest: "list_all has_command tr"
    by simp_all
  obtain g where d: "do m (call os f) = (g, Returns ())"
    using do_panics [OF hc, of os] by (cases "do m (call os f)") auto
  from produced_do [of m os f] d have pg: "produced g = []" by simp
  from "2.IH" [OF d [symmetric] refl rest] d pg show ?case
    by (auto simp: produced_append split: prod.splits)
qed (auto split: prod.splits)

lemma range_body_has_command:
  "TestCommand wdir \<noteq> [] \<Longrightarrow> list_all has_command (range_body ev wdir)"
  by (simp add: range_body_def)

lemma range_Dirs_has_command:
  "\<forall>d \<in> set dirs. TestCommand d \<noteq> [] \<Longrightarrow> list_all has_command (range_Dirs ev dirs)"
  by (induction dirs) (simp_all add: range_body_has_command)

lemma watch_has_command:
  "\<forall>d \<in> set (Dirs cfg). TestCommand d \<noteq> [] \<Longrightarrow> list_all has_command (fst (watch cfg rs))"
  by (induction cfg rs rule: watch.induct)
     (auto simp: range_Dirs_has_command split: prod.splits)

lemma process_safe:
  assumes "\<forall>d \<in> set (Dirs cfg). TestCommand d \<noteq> []"
  shows "snd (process os cfg rs) = Returns (snd (watch cfg rs))"
    and "produced (fst (process os cfg rs)) = produced (fst (watch cfg rs))"
  using run_goroutines_safe [OF watch_has_command [OF assms, of rs], of os]
  by (auto simp: process_def split: prod.splits outcome.splits)


lemma proj_foo_test_body:
  "range_body \<lparr>Name = ''/proj/foo_test.go'', Op = op\<rparr> proj
     = [Go_do ''failed to test'' (call_retest proj)]"
  by (simp add: range_body_def proj_patterns proj_foo_test)

text \<open>
  C4. \<open>retest\<close> returns an error exactly when there is a command and the operating
  system does not start it or it exits with another status than 0. The goroutine of
  \<open>do\<close> then logs that error once, after what \<open>retest\<close> has logged, and returns. In a
  configuration whose directories all have a command, whatever the commands do, the
  process does not end before the loop does, the loop ends as \<open>watch\<close> alone does, and
  the same actions are started for all the events received.
\<close>

theorem retest_error_logged_once_and_contained:
  "((\<exists>e. snd (retest os wdir) = Returns (Some e))
      = (\<exists>name args. TestCommand wdir = name # args \<and> os name args \<noteq> Exited 0)) \<and>
   (snd (retest os wdir) = Returns (Some err) \<longrightarrow>
      do m (retest os wdir)
        = (fst (retest os wdir) @ [Log Error m [zap_Error err]], Returns ()) \<and>
      filter is_error_log (fst (do m (retest os wdir))) = [Log Error m [zap_Error err]]) \<and>
   ((\<forall>d \<in> set (Dirs cfg). TestCommand d \<noteq> []) \<longrightarrow>
      snd (process os cfg rs) = Returns (snd (watch cfg rs)) \<and>
      produced (fst (process os cfg rs)) = produced (fst (watch cfg rs)))"
proof (intro conjI impI)
  show "(\<exists>e. snd (retest os wdir) = Returns (Some e))
      = (\<exists>name args. TestCommand wdir = name # args \<and> os name args \<noteq> Exited 0)"
    by (rule retest_error_iff)
next
  assume r: "snd (retest os wdir) = Returns (Some err)"
  then show d: "do m (retest os wdir)
        = (fst (retest os wdir) @ [Log Error m [zap_Error err]], Returns ())"
    by (rule do_logs_error)
  show "filter is_error_log (fst (do m (retest os wdir))) = [Log Error m [zap_Error err]]"
    by (simp add: d retest_no_error_log)
next
  assume a: "\<forall>d \<in> set (Dirs cfg). TestCommand d \<noteq> []"
  then show "snd (process os cfg rs) = Returns (snd (watch cfg rs))"
    by (rule process_safe)
  from a show "produced (fst (process os cfg rs)) = produced (fst (watch cfg rs))"
    by (rule process_safe)
qed

theorem retest_error_logged_once_and_contained_witness:
  "(\<lambda>name args. Exited 1) ''go'' [''test'', ''./...''] \<noteq> Exited 0 \<and>
   snd (retest (\<lambda>name args. Exited 1) proj)
     = Returns (Some (Errorf ''failed to run test command: '' (ExitError 1))) \<and>
   filter is_error_log (fst (do ''failed to test'' (retest (\<lambda>name args. Exited 1) proj)))
     = [Log Error ''failed to test''
          [zap_Error (Errorf ''failed to run test command: '' (ExitError 1))]] \<and>
   TestCommand proj \<noteq> [] \<and>
   snd (process (\<lambda>name args. Exited 1) \<lparr>ListenAddr = '':8080'', Dirs = [proj]\<rparr>
          [Events_recv \<lparr>Name = ''/proj/foo_test.go'', Op = Write\<rparr>,
           Events_recv \<lparr>Name = ''/proj/foo_test.go'', Op = Create\<rparr>])
     = Returns Listening \<and>
   produced (fst (process (\<lambda>name args. Exited 1) \<lparr>ListenAddr = '':8080'', Dirs = [proj]\<rparr>
          [Events_recv \<lparr>Name = ''/proj/foo_test.go'', Op = Write\<rparr>,
           Events_recv \<lparr>Name = ''/proj/foo_test.go'', Op = Create\<rparr>]))
     = [Retest, Retest]"
proof -
  let ?os = "\<lambda>name args. Exited 1 :: run_result"
  let ?cfg = "\<lparr>ListenAddr = '':8080'', Dirs = [proj]\<rparr>"
  let ?rs = "[Events_recv \<lparr>Name = ''/proj/foo_test.go'', Op = Write\<rparr>,
              Events_recv \<lparr>Name = ''/proj/foo_test.go'', Op = Create\<rparr>]"
  let ?err = "Errorf ''failed to run test command: '' (ExitError 1)"
  note t = retest_error_logged_once_and_contained
      [of ?os proj ?err "''failed to test''" ?cfg ?rs]
  have r: "snd (retest ?os proj) = Returns (Some ?err)"
    by (simp add: retest_def proj_def cmd_Run_def)
  have c: "\<forall>d \<in> set (Dirs ?cfg). TestCommand d \<noteq> []"
    by (simp add: proj_def)
  have w: "watch ?cfg ?rs
      = ([Go_do ''failed to test'' (call_retest proj),
          Log Debug ''fsnotify event''
            [zap_Any ''ev'' \<lparr>Name = ''/proj/foo_test.go'', Op = Write\<rparr>],
          Go_do ''failed to test'' (call_retest proj),
          Log Debug ''fsnotify event''
            [zap_Any ''ev'' \<lparr>Name = ''/proj/foo_test.go'', Op = Create\<rparr>]], Listening)"
    by (simp add: proj_foo_test_body Write_def Create_def Chmod_def)
  from t r have l: "filter is_error_log (fst (do ''failed to test'' (retest ?os proj)))
      = [Log Error ''failed to test'' [zap_Error ?err]]"
    by blast
  from t c have p: "snd (process ?os ?cfg ?rs) = Returns (snd (watch ?cfg ?rs))"
      "produced (fst (process ?os ?cfg ?rs)) = produced (fst (watch ?cfg ?rs))"
    by blast+
  have "snd (process ?os ?cfg ?rs) = Returns Listening"
    by (simp only: p w snd_conv)
  moreover have "produced (fst (process ?os ?cfg ?rs)) = [Retest, Retest]"
    by (simp only: p w fst_conv produced.simps action_of.simps)
  moreover have "TestCommand proj \<noteq> []"
    by (simp add: proj_def)
  ultimately show ?thesis using r l by simp
qed

section \<open>What the star matches\<close>

subsection \<open>\<open>Match\<close> on a pattern that is literal but for one star\<close>

lemma literal_Cons [simp]: "literal (a # s) = (\<not> meta a \<and> literal s)"
  by (simp add: literal_def)

lemma literal_Nil [simp]: "literal []"
  by (simp add: literal_def)

lemma literal_append [simp]: "literal (s @ t) = (literal s \<and> literal t)"
  by (simp add: literal_def)

lemma matchChunk_loop_step:
  "\<not> meta a \<Longrightarrow>
     matchChunk_loop (a # c) s failed0 =
       (if \<not> failed0 \<and> s \<noteq> [] then matchChunk_loop c (tl s) (a \<noteq> hd s)
        else matchChunk_loop c s True)"
  by (auto simp: meta_def Let_def)

lemma matchChunk_loop_failed:
  "literal c \<Longrightarrow> matchChunk_loop c s True = ([], False, None)"
  by (induction c arbitrary: s) (simp_all add: matchChunk_loop_step del: matchChunk_loop.simps(2))

lemma matchChunk_literal:
  "literal c \<Longrightarrow>
     matchChunk c s =
       (if take (length c) s = c then (drop (length c) s, True, None) else ([], False, None))"
  unfolding matchChunk_def
proof (induction c arbitrary: s)
  case Nil
  show ?case by simp
next
  case (Cons a c)
  then have a: "\<not> meta a" and c: "literal c" by simp_all
  show ?case
  proof (cases s)
    case Nil
    with a c show ?thesis
      by (simp add: matchChunk_loop_step matchChunk_loop_failed del: matchChunk_loop.simps(2))
  next
    case (Cons b s')
    show ?thesis
    proof (cases "a = b")
      case True
      with Cons a Cons.IH [OF c, of s'] show ?thesis
        by (simp add: matchChunk_loop_step del: matchChunk_loop.simps(2))
    next
      case False
      with Cons a c show ?thesis
        by (simp add: matchChunk_loop_step matchChunk_loop_failed del: matchChunk_loop.simps(2))
    qed
  qed
qed

lemma scan_len_literal:
  "literal l \<Longrightarrow> scan_len (l @ r) False = length l + scan_len r False"
  by (induction l) (auto simp: meta_def)

lemma skip_stars_literal:
  "literal l \<Longrightarrow> l \<noteq> [] \<Longrightarrow> skip_stars (l @ r) star = (star, l @ r)"
  by (cases l) (auto simp: meta_def)

lemma scanChunk_literal_star:
  assumes "literal l" "l \<noteq> []"
  shows "scanChunk (l @ CHR ''*'' # r) = (False, l, CHR ''*'' # r)"
  using assms scan_len_literal [OF assms(1), of "CHR ''*'' # r"]
  by (simp add: scanChunk_def skip_stars_literal)

lemma scanChunk_star_literal:
  assumes "literal suf"
  shows "scanChunk (CHR ''*'' # suf) = (True, suf, [])"
proof (cases "suf = []")
  case True
  then show ?thesis by (simp add: scanChunk_def)
next
  case False
  with assms skip_stars_literal [of suf "[]" True] scan_len_literal [of suf "[]"]
  show ?thesis by (simp add: scanChunk_def)
qed

lemma star_tail_refl: "star_tail suf suf"
  unfolding star_tail_def by (rule exI [of _ "[]"]) simp

lemma star_tail_Nil: "star_tail suf [] = (suf = [])"
  by (auto simp: star_tail_def)

lemma star_tail_Cons:
  "star_tail suf (c # name) = (c # name = suf \<or> (c \<noteq> Separator \<and> star_tail suf name))"
proof
  assume "star_tail suf (c # name)"
  then obtain mid where m: "c # name = mid @ suf" "Separator \<notin> set mid"
    by (auto simp: star_tail_def)
  show "c # name = suf \<or> (c \<noteq> Separator \<and> star_tail suf name)"
  proof (cases mid)
    case Nil
    with m show ?thesis by simp
  next
    case (Cons a mid')
    with m have "c \<noteq> Separator" "name = mid' @ suf" "Separator \<notin> set mid'" by auto
    then show ?thesis by (auto simp: star_tail_def)
  qed
next
  assume "c # name = suf \<or> (c \<noteq> Separator \<and> star_tail suf name)"
  then show "star_tail suf (c # name)"
  proof
    assume "c # name = suf"
    then have "c # name = [] @ suf \<and> Separator \<notin> set []" by simp
    then show ?thesis unfolding star_tail_def by blast
  next
    assume "c \<noteq> Separator \<and> star_tail suf name"
    then obtain mid where "name = mid @ suf" "Separator \<notin> set mid" "c \<noteq> Separator"
      by (auto simp: star_tail_def)
    then have "c # name = (c # mid) @ suf \<and> Separator \<notin> set (c # mid)" by simp
    then show ?thesis unfolding star_tail_def by blast
  qed
qed

lemma take_all_eq: "take (length suf) name = suf \<Longrightarrow> drop (length suf) name = [] \<Longrightarrow> name = suf"
  by (metis append_Nil2 append_take_drop_id)

lemma star_skip_literal:
  "literal suf \<Longrightarrow>
     star_skip suf [] name =
       (if name \<noteq> [] \<and> hd name \<noteq> Separator \<and> star_tail suf (tl name) then Found []
        else NotFound)"
proof (induction name)
  case Nil
  show ?case by simp
next
  case (Cons c name)
  note mc = matchChunk_literal [OF Cons.prems, of name]
  show ?case
  proof (cases "c = Separator")
    case True
    then show ?thesis by simp
  next
    case sep: False
    show ?thesis
    proof (cases "name = suf")
      case True
      then have "star_tail suf name" by (simp add: star_tail_refl)
      with True sep mc show ?thesis by simp
    next
      case ne: False
      have rec: "star_skip suf [] (c # name) = star_skip suf [] name"
      proof (cases "take (length suf) name = suf")
        case True
        with ne have "drop (length suf) name \<noteq> []" using take_all_eq by blast
        with True sep mc show ?thesis by simp
      next
        case False
        with sep mc show ?thesis by simp
      qed
      have "star_tail suf name = (name \<noteq> [] \<and> hd name \<noteq> Separator \<and> star_tail suf (tl name))"
        using ne by (cases name) (auto simp: star_tail_Nil star_tail_Cons)
      with rec Cons.IH [OF Cons.prems] sep show ?thesis by simp
    qed
  qed
qed

lemma Match_Nil: "Match [] name = (name = [], None)"
  by (subst Match.simps) simp

lemma Match_star_literal:
  assumes "literal suf"
  shows "Match (CHR ''*'' # suf) name = (star_tail suf name, None)"
proof (cases "suf = []")
  case True
  have "star_tail [] name = (Separator \<notin> set name)"
    by (auto simp: star_tail_def)
  with True show ?thesis
    by (subst Match.simps) (simp add: scanChunk_def)
next
  case False
  note sc = scanChunk_star_literal [OF assms]
  note mc = matchChunk_literal [OF assms, of name]
  note sk = star_skip_literal [OF assms, of name]
  show ?thesis
  proof (cases "name = suf")
    case True
    then have "star_tail suf name" by (simp add: star_tail_refl)
    with True False sc mc show ?thesis
      by (subst Match.simps) (simp add: Match_Nil)
  next
    case ne: False
    have nok: "\<not> (fst (snd (matchChunk suf name)) \<and> fst (matchChunk suf name) = [])"
      using mc ne take_all_eq by (auto split: if_splits)
    have st: "star_tail suf name = (name \<noteq> [] \<and> hd name \<noteq> Separator \<and> star_tail suf (tl name))"
      using ne False by (cases name) (auto simp: star_tail_Nil star_tail_Cons)
    from False sc mc nok sk st show ?thesis
      by (subst Match.simps) (auto simp: Match_Nil split: if_splits)
  qed
qed

lemma Match_literal_star_literal:
  assumes "literal l" "literal suf"
  shows "Match (l @ CHR ''*'' # suf) name
    = ((\<exists>mid. name = l @ mid @ suf \<and> Separator \<notin> set mid), None)"
proof (cases "l = []")
  case True
  then show ?thesis by (simp add: Match_star_literal [OF assms(2)] star_tail_def)
next
  case False
  note sc = scanChunk_literal_star [OF assms(1) False, of suf]
  note mc = matchChunk_literal [OF assms(1), of name]
  show ?thesis
  proof (cases "take (length l) name = l")
    case True
    then have n: "name = l @ drop (length l) name"
      by (metis append_take_drop_id)
    have "(\<exists>mid. name = l @ mid @ suf \<and> Separator \<notin> set mid)
        = star_tail suf (drop (length l) name)"
      unfolding star_tail_def using n by (metis append_eq_conv_conj)
    with True False sc mc show ?thesis
      by (subst Match.simps) (simp add: Match_star_literal [OF assms(2)])
  next
    case F: False
    then have "\<not> (\<exists>mid. name = l @ mid @ suf \<and> Separator \<notin> set mid)"
      by auto
    with F False sc mc show ?thesis
      by (subst Match.simps) simp
  qed
qed

subsection \<open>\<open>Join\<close> of a clean absolute path and one more element\<close>

lemma takeWhile_segment:
  "Separator \<notin> set s \<Longrightarrow> r = [] \<or> hd r = Separator \<Longrightarrow>
     takeWhile (\<lambda>x. x \<noteq> Separator) (s @ r) = s \<and> dropWhile (\<lambda>x. x \<noteq> Separator) (s @ r) = r"
  by (induction s) (cases r; auto)+

lemma clean_loop_segment:
  assumes "segment s" and "r = [] \<or> hd r = Separator"
  shows "clean_loop rooted (s @ r) out dotdot =
     clean_loop rooted r
       ((if rooted \<and> length out \<noteq> 1 \<or> \<not> rooted \<and> length out \<noteq> 0
         then out @ [Separator] else out) @ s) dotdot"
proof -
  from assms(1) obtain c cs where s: "s = c # cs" and c: "c \<noteq> Separator"
    and ns: "Separator \<notin> set cs" and nd: "s \<noteq> ''.''" and ndd: "s \<noteq> ''..''"
    by (cases s) (auto simp: segment_def)
  have n1: "\<not> (c = CHR ''.'' \<and> (cs @ r = [] \<or> hd (cs @ r) = Separator))"
    using s nd ns by (cases cs) auto
  have n2: "\<not> (c = CHR ''.'' \<and> hd (cs @ r) = CHR ''.''
              \<and> (tl (cs @ r) = [] \<or> hd (tl (cs @ r)) = Separator))"
  proof (cases cs)
    case Nil
    with s nd show ?thesis by auto
  next
    case (Cons d ds)
    with s ndd ns show ?thesis by (cases ds) auto
  qed
  from takeWhile_segment [of s r] assms s ns c
  have tw: "takeWhile (\<lambda>x. x \<noteq> Separator) (c # cs @ r) = c # cs"
    "dropWhile (\<lambda>x. x \<noteq> Separator) (c # cs @ r) = r"
    by (auto simp: segment_def)
  have "clean_loop rooted (c # (cs @ r)) out dotdot =
     clean_loop rooted r
       ((if rooted \<and> length out \<noteq> 1 \<or> \<not> rooted \<and> length out \<noteq> 0
         then out @ [Separator] else out) @ c # cs) dotdot"
    by (subst clean_loop.simps(2)) (simp only: c n1 n2 if_False tw Let_def)
  with s show ?thesis by simp
qed

lemma abs_path_head: "abs_path segs = [] \<or> hd (abs_path segs) = Separator"
  by (cases segs) (simp_all add: abs_path_def)

lemma clean_loop_abs_path:
  "list_all segment segs \<Longrightarrow> 1 \<le> length out \<Longrightarrow>
     clean_loop True (abs_path segs) out d =
       (if segs = [] then out
        else if length out = 1 then out @ tl (abs_path segs)
        else out @ abs_path segs)"
proof (induction segs arbitrary: out)
  case Nil
  show ?case by (simp add: abs_path_def)
next
  case (Cons s segs)
  then have s: "segment s" and segs: "list_all segment segs" by simp_all
  from s have sne: "s \<noteq> []" by (simp add: segment_def)
  have ap: "abs_path (s # segs) = Separator # s @ abs_path segs"
    by (simp add: abs_path_def)
  let ?out = "(if length out \<noteq> 1 then out @ [Separator] else out) @ s"
  have "clean_loop True (abs_path (s # segs)) out d = clean_loop True (s @ abs_path segs) out d"
    by (simp add: ap del: clean_loop.simps(2)) (subst clean_loop.simps(2), simp)
  also have "\<dots> = clean_loop True (abs_path segs) ?out d"
    using clean_loop_segment [OF s abs_path_head, of True segs out d] by simp
  also have "\<dots> = (if segs = [] then ?out else ?out @ abs_path segs)"
    using Cons.IH [OF segs, of ?out] sne Cons.prems(2)
    by (cases s) auto
  finally show ?case using ap by (auto simp: abs_path_def)
qed

lemma Clean_abs_path:
  assumes "list_all segment segs" "segs \<noteq> []"
  shows "Clean (abs_path segs) = abs_path segs"
proof -
  from assms obtain s segs' where segs: "segs = s # segs'" by (cases segs) auto
  have ap: "abs_path segs = Separator # tl (abs_path segs)"
    by (simp add: segs abs_path_def)
  have "clean_loop True (tl (abs_path segs)) [Separator] 1
      = clean_loop True (abs_path segs) [Separator] 1"
    by (subst (2) ap, subst clean_loop.simps(2)) simp
  also have "\<dots> = Separator # tl (abs_path segs)"
    using clean_loop_abs_path [OF assms(1), of "[Separator]" 1] assms(2) by simp
  finally have cl: "clean_loop True (tl (abs_path segs)) [Separator] 1 = abs_path segs"
    using ap by simp
  have hd: "hd (abs_path segs) = Separator" and ne: "abs_path segs \<noteq> []"
    by (simp_all add: segs abs_path_def)
  show ?thesis
    unfolding Clean_def using cl hd ne by (simp add: Let_def)
qed

lemma Join_abs_path:
  assumes "list_all segment segs" "segs \<noteq> []" "segment p"
  shows "Join [abs_path segs, p] = abs_path segs @ Separator # p"
proof -
  have ne: "abs_path segs \<noteq> []"
    using assms(2) by (cases segs) (simp_all add: abs_path_def)
  have "abs_path segs @ Separator # p = abs_path (segs @ [p])"
    by (simp add: abs_path_def)
  moreover have "Clean (abs_path (segs @ [p])) = abs_path (segs @ [p])"
    using assms by (intro Clean_abs_path) simp_all
  ultimately show ?thesis
    using ne by (simp add: Join.simps)
qed

subsection \<open>The star in a joined pattern\<close>

lemma proj_no_match:
  "\<not> matches proj (TestFilePattern proj) ''/proj/sub/foo_test.go''"
  "\<not> matches proj (TestFilePattern proj) ''/proj/FOO_TEST.GO''"
  "\<not> matches proj (TestFilePattern proj) ''/proj/foo_test.go.orig''"
  "\<not> matches proj (TestFilePattern proj) ''/tmp/proj/foo_test.go''"
  unfolding matches_def proj_patterns by code_simp+

lemma star_pattern_segment:
  assumes "Separator \<notin> set pre" "Separator \<notin> set suf"
  shows "segment (pre @ CHR ''*'' # suf)"
proof -
  have "CHR ''*'' \<in> set (pre @ CHR ''*'' # suf)" by simp
  moreover have "CHR ''*'' \<notin> set ''.''" "CHR ''*'' \<notin> set ''..''" by simp_all
  ultimately have "pre @ CHR ''*'' # suf \<noteq> ''.''" "pre @ CHR ''*'' # suf \<noteq> ''..''"
    by metis+
  with assms show ?thesis by (simp add: segment_def)
qed

text \<open>
  C6. The three patterns that the loop matches are \<open>Join\<close> of the directory's path and
  the configured pattern. For an absolute, clean directory path without operators and a
  pattern \<open>pre*suf\<close> of one element, the joined pattern is path, separator, pattern, and
  a name matches it exactly when it is the path, a separator, \<open>pre\<close>, a run of characters
  that are not separators, and \<open>suf\<close>: the match is of the whole name, byte for byte
  (so an upper-case name does not match a lower-case pattern), and the star does not
  pass a separator. For the example directory, \<open>/proj/sub/foo_test.go\<close>,
  \<open>/proj/FOO_TEST.GO\<close>, \<open>/proj/foo_test.go.orig\<close> and \<open>/tmp/proj/foo_test.go\<close> do not
  match \<open>/proj/*_test.go\<close>.
\<close>

theorem star_stays_within_one_segment:
  assumes "segs \<noteq> []" and "list_all segment segs" and "Path wdir = abs_path segs"
    and "literal (Path wdir)" and "literal pre" and "literal suf"
    and "Separator \<notin> set pre" and "Separator \<notin> set suf"
  shows
    "range_body ev wdir =
       (if fst (Match (Join [Path wdir, TestFilePattern wdir]) (Name ev))
           \<or> fst (Match (Join [Path wdir, TemplateFilePattern wdir]) (Name ev))
        then [Go_do ''failed to test'' (call_retest wdir)]
        else if fst (Match (Join [Path wdir, ScreenshotFilePattern wdir]) (Name ev))
        then [Go_do ''failed to reload'' (call_reload wdir)]
        else []) \<and>
     Join [Path wdir, pre @ ''*'' @ suf] = Path wdir @ ''/'' @ pre @ ''*'' @ suf \<and>
     matches wdir (pre @ ''*'' @ suf) name
       = (\<exists>mid. name = Path wdir @ ''/'' @ pre @ mid @ suf \<and> Separator \<notin> set mid) \<and>
     pattern_error wdir (pre @ ''*'' @ suf) name = None \<and>
     \<not> matches proj (TestFilePattern proj) ''/proj/sub/foo_test.go'' \<and>
     \<not> matches proj (TestFilePattern proj) ''/proj/FOO_TEST.GO'' \<and>
     \<not> matches proj (TestFilePattern proj) ''/proj/foo_test.go.orig'' \<and>
     \<not> matches proj (TestFilePattern proj) ''/tmp/proj/foo_test.go''"
proof -
  have j: "Join [Path wdir, pre @ ''*'' @ suf] = Path wdir @ ''/'' @ pre @ ''*'' @ suf"
    using Join_abs_path [OF assms(2) assms(1) star_pattern_segment [OF assms(7,8)]] assms(3)
    by simp
  have l: "literal (Path wdir @ Separator # pre)"
    using assms(4,5) by (simp add: meta_def)
  have m: "Match (Path wdir @ ''/'' @ pre @ ''*'' @ suf) name
      = ((\<exists>mid. name = Path wdir @ ''/'' @ pre @ mid @ suf \<and> Separator \<notin> set mid), None)"
    using Match_literal_star_literal [OF l assms(6), of name] by simp
  have r: "range_body ev wdir =
       (if fst (Match (Join [Path wdir, TestFilePattern wdir]) (Name ev))
           \<or> fst (Match (Join [Path wdir, TemplateFilePattern wdir]) (Name ev))
        then [Go_do ''failed to test'' (call_retest wdir)]
        else if fst (Match (Join [Path wdir, ScreenshotFilePattern wdir]) (Name ev))
        then [Go_do ''failed to reload'' (call_reload wdir)]
        else [])"
    by (simp add: range_body_def)
  have ma: "matches wdir (pre @ ''*'' @ suf) name
       = (\<exists>mid. name = Path wdir @ ''/'' @ pre @ mid @ suf \<and> Separator \<notin> set mid)"
    unfolding matches_def j m by simp
  have pe: "pattern_error wdir (pre @ ''*'' @ suf) name = None"
    unfolding pattern_error_def j m by simp
  from r j ma pe proj_no_match show ?thesis by blast
qed

theorem star_stays_within_one_segment_witness:
  "[''proj''] \<noteq> [] \<and> list_all segment [''proj''] \<and> Path proj = abs_path [''proj''] \<and>
   literal (Path proj) \<and> literal [] \<and> literal ''_test.go'' \<and>
   Separator \<notin> set [] \<and> Separator \<notin> set ''_test.go'' \<and>
   Join [Path proj, [] @ ''*'' @ ''_test.go''] = Path proj @ ''/'' @ [] @ ''*'' @ ''_test.go'' \<and>
   matches proj ([] @ ''*'' @ ''_test.go'') ''/proj/foo_test.go''"
proof -
  have h: "[''proj''] \<noteq> []" "list_all segment [''proj'']" "Path proj = abs_path [''proj'']"
    "literal (Path proj)" "literal []" "literal ''_test.go''"
    "Separator \<notin> set []" "Separator \<notin> set ''_test.go''"
    by (simp_all add: segment_def abs_path_def meta_def proj_def)
  note t = star_stays_within_one_segment [OF h, of "\<lparr>Name = ''/proj/foo_test.go'', Op = Write\<rparr>"
      "''/proj/foo_test.go''"]
  have "''/proj/foo_test.go'' = Path proj @ ''/'' @ [] @ ''foo'' @ ''_test.go''
      \<and> Separator \<notin> set ''foo''"
    by (simp add: proj_def)
  then have "\<exists>mid. ''/proj/foo_test.go'' = Path proj @ ''/'' @ [] @ mid @ ''_test.go''
      \<and> Separator \<notin> set mid"
    by (rule exI)
  with t have "matches proj ([] @ ''*'' @ ''_test.go'') ''/proj/foo_test.go''"
    by blast
  moreover from t have "Join [Path proj, [] @ ''*'' @ ''_test.go'']
      = Path proj @ ''/'' @ [] @ ''*'' @ ''_test.go''"
    by blast
  ultimately show ?thesis using h by blast
qed

end
